theory Spec2Isabelle
  imports Main "HOL-Library.AList"
begin

section \<open>The record pool reducer of ra-tree-core (reducers/data.ts)\<close>

text \<open>
  The reducer keeps a pool of records indexed by identifier together with the date at
  which each record was fetched. The pool is one JavaScript object: every record is an
  enumerable property named by the record's identifier, and the dates live in one more
  property, \<open>fetchedAt\<close>, which \<open>hideFetchedAt\<close> makes non enumerable.

  The embedding follows the source function by function. What JavaScript does beyond
  returning a value is written out: a \<open>TypeError\<close> is a value of the error type,
  the clock read by \<open>getFetchedAt\<close> is an argument \<open>now\<close>, and an object is an
  association list whose denotation is \<open>map_of\<close> (the first binding of a key is the
  property; \<open>Object_entries\<close> lists each property once).

  Two things JavaScript does are left out. Properties are enumerated in the order of the
  list, while JavaScript lists the names that are array indices first; pools and records
  are compared by their contents, which do not depend on that order when every record is
  stored under its own identifier. And objects are modelled with their own properties
  only: an identifier is taken not to be the name of a member of \<open>Object.prototype\<close>
  (such as \<open>toString\<close> or \<open>constructor\<close>), for which \<open>newRecordsById[id]\<close>
  and \<open>state[id]\<close> would find the inherited member.
\<close>

subsection \<open>JavaScript values and operators\<close>

text \<open>
  Field values of records are primitive values. Numbers are the integers (identifiers and
  sibling positions are), with exact arithmetic; \<open>JNaN\<close> is the number NaN. A
  \<open>Date\<close> is represented by its time value, a number of milliseconds.
\<close>

datatype jsval = JUndefined | JNull | JBool bool | JNum int | JNaN | JStr string

type_synonym obj = "(string \<times> jsval) list"

text \<open>\<open>ob[k]\<close>: reading a property that is absent gives \<open>undefined\<close>.\<close>

definition get :: "obj \<Rightarrow> string \<Rightarrow> jsval" where
  "get ob k = (case map_of ob k of None \<Rightarrow> JUndefined | Some v \<Rightarrow> v)"

text \<open>\<open>Object.entries(ob)\<close> and \<open>Object.keys(ob)\<close>: every property once.\<close>

definition Object_entries :: "(string \<times> 'a) list \<Rightarrow> (string \<times> 'a) list" where
  "Object_entries ob = AList.clearjunk ob"

definition Object_keys :: "(string \<times> 'a) list \<Rightarrow> string list" where
  "Object_keys ob = map fst (Object_entries ob)"

text \<open>\<open>{...a, ...b}\<close>: the properties of \<open>a\<close>, overridden and extended by those of \<open>b\<close>.\<close>

definition spread :: "obj \<Rightarrow> obj \<Rightarrow> obj" where
  "spread a b = fold (\<lambda>(key, val) ob. AList.update key val ob) (Object_entries b) a"

text \<open>The decimal numeral of an integer, as \<open>Number.prototype.toString\<close> prints it.\<close>

definition digit_char :: "nat \<Rightarrow> char" where
  "digit_char n = ''0123456789'' ! n"

fun digits :: "nat \<Rightarrow> string" where
  "digits n = (if n < 10 then [digit_char n] else digits (n div 10) @ [digit_char (n mod 10)])"

declare digits.simps [simp del]

definition number_to_string :: "int \<Rightarrow> string" where
  "number_to_string i = (if i < 0 then CHR ''-'' # digits (nat (- i)) else digits (nat i))"

text \<open>
  \<open>ToPropertyKey\<close>: the property name under which a value used as an index is looked up.
  An identifier is a string or a number; the number 12 and the string "12" name the same
  property.
\<close>

fun key_of :: "jsval \<Rightarrow> string" where
  "key_of JUndefined = ''undefined''"
| "key_of JNull = ''null''"
| "key_of (JBool b) = (if b then ''true'' else ''false'')"
| "key_of (JNum n) = number_to_string n"
| "key_of JNaN = ''NaN''"
| "key_of (JStr s) = s"

text \<open>\<open>a === b\<close>: same type and same value; NaN is equal to nothing.\<close>

fun strict_eq :: "jsval \<Rightarrow> jsval \<Rightarrow> bool" where
  "strict_eq JNaN b = False"
| "strict_eq a JNaN = False"
| "strict_eq a b = (a = b)"

text \<open>
  \<open>ToNumber\<close>, with \<open>None\<close> for NaN. A string is read as a decimal integer with an
  optional sign, surrounded by white space; the empty string is 0. Strings that hold
  another numeric literal (a fraction, an exponent, a hexadecimal numeral, Infinity) are
  outside the integers and are read as NaN here.
\<close>

definition is_space :: "char \<Rightarrow> bool" where
  "is_space c = (of_char c \<in> {9, 10, 11, 12, 13, 32, 160 :: nat})"

definition is_digit :: "char \<Rightarrow> bool" where
  "is_digit c = (48 \<le> (of_char c :: nat) \<and> (of_char c :: nat) \<le> 57)"

definition trim :: "string \<Rightarrow> string" where
  "trim s = rev (dropWhile is_space (rev (dropWhile is_space s)))"

definition digits_value :: "string \<Rightarrow> int" where
  "digits_value s = foldl (\<lambda>acc c. 10 * acc + (int (of_char c) - 48)) 0 s"

definition string_to_number :: "string \<Rightarrow> int option" where
  "string_to_number s =
     (case trim s of
        [] \<Rightarrow> Some 0
      | c # r \<Rightarrow>
          if (c = CHR ''-'' \<or> c = CHR ''+'') \<and> r \<noteq> [] \<and> list_all is_digit r
          then Some (if c = CHR ''-'' then - digits_value r else digits_value r)
          else if list_all is_digit (c # r) then Some (digits_value (c # r))
          else None)"

fun to_number :: "jsval \<Rightarrow> int option" where
  "to_number JUndefined = None"
| "to_number JNull = Some 0"
| "to_number (JBool b) = Some (if b then 1 else 0)"
| "to_number (JNum n) = Some n"
| "to_number JNaN = None"
| "to_number (JStr s) = string_to_number s"

text \<open>Strings compare by code unit, lexicographically.\<close>

fun str_less :: "string \<Rightarrow> string \<Rightarrow> bool" where
  "str_less [] [] = False"
| "str_less [] (b # bs) = True"
| "str_less (a # as) [] = False"
| "str_less (a # as) (b # bs) =
     (if a = b then str_less as bs else (of_char a :: nat) < of_char b)"

text \<open>
  \<open>a >= b\<close>: two strings compare as strings, anything else as numbers, and a
  comparison with NaN is false.
\<close>

fun js_ge :: "jsval \<Rightarrow> jsval \<Rightarrow> bool" where
  "js_ge (JStr a) (JStr b) = (\<not> str_less a b)"
| "js_ge a b =
     (case to_number a of
        None \<Rightarrow> False
      | Some x \<Rightarrow> (case to_number b of None \<Rightarrow> False | Some y \<Rightarrow> y \<le> x))"

text \<open>\<open>a + 1\<close>: a string is extended by the character 1, anything else is a number.\<close>

fun plus_one :: "jsval \<Rightarrow> jsval" where
  "plus_one (JStr s) = JStr (s @ ''1'')"
| "plus_one a = (case to_number a of None \<Rightarrow> JNaN | Some x \<Rightarrow> JNum (x + 1))"

subsection \<open>The pool\<close>

text \<open>
  \<open>RecordSetWithDate\<close>: \<open>props\<close> are the enumerable properties (a property may hold
  \<open>undefined\<close>, written \<open>None\<close>), \<open>fetchedAt\<close> is the hidden property. The name
  \<open>fetchedAt\<close> always denotes the hidden property, so a binding of that name in
  \<open>props\<close> is never read.
\<close>

record RecordSetWithDate =
  props :: "(string \<times> obj option) list"
  fetchedAt :: obj

text \<open>\<open>state[k]\<close>\<close>

definition lookup :: "RecordSetWithDate \<Rightarrow> string \<Rightarrow> obj option" where
  "lookup st k =
     (if k = ''fetchedAt'' then Some (fetchedAt st)
      else (case map_of (props st) k of None \<Rightarrow> None | Some v \<Rightarrow> v))"

text \<open>\<open>Object.entries(state)\<close> and \<open>Object.keys(state)\<close> skip the hidden property.\<close>

definition pool_entries :: "RecordSetWithDate \<Rightarrow> (string \<times> obj option) list" where
  "pool_entries st = filter (\<lambda>(k, v). k \<noteq> ''fetchedAt'') (Object_entries (props st))"

definition pool_keys :: "RecordSetWithDate \<Rightarrow> string list" where
  "pool_keys st = map fst (pool_entries st)"

text \<open>
  \<open>hideFetchedAt\<close> changes the enumerability of \<open>fetchedAt\<close> and nothing else; the
  record type keeps that property apart already.
\<close>

definition hideFetchedAt :: "RecordSetWithDate \<Rightarrow> RecordSetWithDate" where
  "hideFetchedAt records = records"

subsection \<open>addRecords\<close>

text \<open>
  Modelled from the spec: \<open>getFetchedAt\<close> is imported from ra-core and is not part of
  the sources at hand. The spec describes the dates after a merge as those of the old
  metadata map unchanged, plus the current instant for every identifier of the new
  records.
\<close>

definition getFetchedAt :: "jsval list \<Rightarrow> obj \<Rightarrow> int \<Rightarrow> obj" where
  "getFetchedAt newRecordIds oldRecordFetchedAt now =
     spread oldRecordFetchedAt
       (fold (\<lambda>i acc. AList.update (key_of i) (JNum now) acc) newRecordIds [])"

text \<open>\<open>newRecords.forEach(record => (newRecordsById[record.id] = record))\<close>\<close>

definition index_by_id :: "obj list \<Rightarrow> (string \<times> obj) list" where
  "index_by_id newRecords =
     fold (\<lambda>r acc. AList.update (key_of (get r ''id'')) r acc) newRecords []"

text \<open>
  \<open>records[id] = newRecordsById[id] || oldRecords[id]\<close>. A record is an object, hence
  truthy. When \<open>id\<close> is the name \<open>fetchedAt\<close> the assignment overwrites the dates
  that \<open>records\<close> was created with.
\<close>

definition assign ::
  "(string \<times> obj) list \<Rightarrow> RecordSetWithDate \<Rightarrow> string \<Rightarrow> RecordSetWithDate \<Rightarrow> RecordSetWithDate"
where
  "assign newRecordsById oldRecords k records =
     (if k = ''fetchedAt''
      then records\<lparr>fetchedAt :=
             (case map_of newRecordsById k of Some r \<Rightarrow> r | None \<Rightarrow> fetchedAt oldRecords)\<rparr>
      else records\<lparr>props :=
             AList.update k
               (case map_of newRecordsById k of Some r \<Rightarrow> Some r | None \<Rightarrow> lookup oldRecords k)
               (props records)\<rparr>)"

definition addRecords :: "obj list \<Rightarrow> RecordSetWithDate \<Rightarrow> int \<Rightarrow> RecordSetWithDate" where
  "addRecords newRecords oldRecords now =
     (let newRecordsById = index_by_id newRecords;
          newFetchedAt =
            getFetchedAt (map (\<lambda>r. get r ''id'') newRecords) (fetchedAt oldRecords) now;
          records = \<lparr>props = [], fetchedAt = newFetchedAt\<rparr>
      in hideFetchedAt
           (fold (assign newRecordsById oldRecords) (Object_keys newFetchedAt) records))"

subsection \<open>removeRecords\<close>

text \<open>
  \<open>removedRecordIds.includes(key)\<close>: \<open>key\<close> comes from \<open>Object.entries\<close> and is a
  string; \<open>includes\<close> compares without conversion, so only a string element can be
  equal to it.
\<close>

definition array_includes :: "jsval list \<Rightarrow> string \<Rightarrow> bool" where
  "array_includes removedRecordIds key = (JStr key \<in> set removedRecordIds)"

text \<open>\<open>.reduce((obj, [key, val]) => ({ ...obj, [key]: val }), init)\<close>\<close>

definition rebuild :: "(string \<times> 'a) list \<Rightarrow> (string \<times> 'a) list" where
  "rebuild es = fold (\<lambda>(key, val) ob. AList.update key val ob) es []"

definition removeRecords :: "jsval list \<Rightarrow> RecordSetWithDate \<Rightarrow> RecordSetWithDate" where
  "removeRecords removedRecordIds oldRecords =
     hideFetchedAt
       \<lparr>props =
          rebuild (filter (\<lambda>(key, val). \<not> array_includes removedRecordIds key)
                     (pool_entries oldRecords)),
        fetchedAt =
          rebuild (filter (\<lambda>(key, val). \<not> array_includes removedRecordIds key)
                     (Object_entries (fetchedAt oldRecords)))\<rparr>"

definition initialState :: RecordSetWithDate where
  "initialState = hideFetchedAt \<lparr>props = [], fetchedAt = []\<rparr>"

subsection \<open>Actions\<close>

text \<open>
  The fetch types are string constants imported from ra-core and from the actions of this
  package; they are pairwise different, and \<open>OTHER\<close> stands for any other tag.
\<close>

datatype fetch_type =
    CREATE | DELETE | DELETE_MANY | GET_LIST | GET_MANY | GET_MANY_REFERENCE | GET_ONE
  | UPDATE | UPDATE_MANY | GET_TREE_ROOT_NODES | GET_TREE_CHILDREN_NODES | MOVE_NODE
  | OTHER string

datatype fetch_status = FETCH_END | OTHER_STATUS string

text \<open>
  \<open>payload.data\<close> is absent, one record (the partial data of an update, or the record of
  a singular response) or an array of records (a bulk response).
\<close>

datatype pdata = NoData | OneRec obj | ManyRecs "obj list"

record payload =
  payload_id :: jsval
  payload_ids :: "jsval list option"
  payload_data :: pdata

record meta =
  optimistic :: bool
  fetch :: "fetch_type option"
  parentSource :: "string option"
  positionSource :: "string option"
  fetchResponse :: "fetch_type option"
  fetchStatus :: "fetch_status option"

record action =
  action_payload :: payload
  action_meta :: "meta option"

text \<open>
  \<open>TypeError\<close> is the exception JavaScript raises when a property of \<open>undefined\<close> is
  read or a value that is no function is called. \<open>OutsideModel\<close> marks the actions
  whose data is an array where the code spreads or stores it as one record: the source
  goes on with objects that hold arrays, which the values above do not express.
\<close>

datatype error = TypeError | OutsideModel

subsection \<open>The reducer\<close>

text \<open>A field name taken from \<open>meta\<close>; an absent name indexes as \<open>undefined\<close>.\<close>

definition field_name :: "string option \<Rightarrow> string" where
  "field_name s = (case s of None \<Rightarrow> ''undefined'' | Some n \<Rightarrow> n)"

text \<open>\<open>meta.positionSource ? ... : []\<close>: absent and empty names are falsy.\<close>

definition truthy :: "string option \<Rightarrow> bool" where
  "truthy s = (case s of None \<Rightarrow> False | Some n \<Rightarrow> n \<noteq> [])"

text \<open>
  The callback of \<open>filter\<close> at one key. \<open>previousState[id][...]\<close> raises when the
  property holds \<open>undefined\<close>, \<open>payload.data[...]\<close> raises when the data is absent,
  and \<open>&&\<close> evaluates the comparison of positions only when the parents are equal.
\<close>

definition is_next_sibling ::
  "RecordSetWithDate \<Rightarrow> obj option \<Rightarrow> string \<Rightarrow> string \<Rightarrow> string \<Rightarrow> error + bool"
where
  "is_next_sibling previousState data parent position k =
     (case lookup previousState k of
        None \<Rightarrow> Inl TypeError
      | Some r \<Rightarrow>
          (case data of
             None \<Rightarrow> Inl TypeError
           | Some d \<Rightarrow>
               Inr (strict_eq (get r parent) (get d parent)
                    \<and> js_ge (get r position) (get d position))))"

fun filter_keys :: "(string \<Rightarrow> error + bool) \<Rightarrow> string list \<Rightarrow> error + string list" where
  "filter_keys f [] = Inr []"
| "filter_keys f (k # ks) =
     (case f k of
        Inl e \<Rightarrow> Inl e
      | Inr b \<Rightarrow>
          (case filter_keys f ks of
             Inl e \<Rightarrow> Inl e
           | Inr rest \<Rightarrow> Inr (if b then k # rest else rest)))"

text \<open>
  \<open>{...previousState[id], [meta.positionSource]: previousState[id][meta.positionSource] + 1}\<close>
\<close>

definition shifted :: "RecordSetWithDate \<Rightarrow> string \<Rightarrow> string \<Rightarrow> obj" where
  "shifted previousState position k =
     (let r = (case lookup previousState k of None \<Rightarrow> [] | Some r \<Rightarrow> r)
      in AList.update position (plus_one (get r position)) r)"

definition nextSiblings ::
  "RecordSetWithDate \<Rightarrow> obj option \<Rightarrow> meta \<Rightarrow> error + obj list"
where
  "nextSiblings previousState data m =
     (if truthy (positionSource m)
      then
        (case filter_keys
                (is_next_sibling previousState data (field_name (parentSource m))
                   (field_name (positionSource m)))
                (pool_keys previousState) of
           Inl e \<Rightarrow> Inl e
         | Inr ks \<Rightarrow> Inr (map (shifted previousState (field_name (positionSource m))) ks))
      else Inr [])"

text \<open>The record at an identifier, spread: \<open>...previousState[id]\<close> (nothing when absent).\<close>

definition previous :: "RecordSetWithDate \<Rightarrow> jsval \<Rightarrow> obj" where
  "previous previousState i =
     (case lookup previousState (key_of i) of None \<Rightarrow> [] | Some r \<Rightarrow> r)"

text \<open>The branch \<open>meta.fetch === UPDATE || meta.fetch === MOVE_NODE\<close>.\<close>

definition update_branch ::
  "RecordSetWithDate \<Rightarrow> payload \<Rightarrow> meta \<Rightarrow> int \<Rightarrow> error + RecordSetWithDate"
where
  "update_branch previousState p m now =
     (case payload_data p of
        ManyRecs rs \<Rightarrow> Inl OutsideModel
      | NoData \<Rightarrow>
          (let updatedRecord = spread (previous previousState (payload_id p)) []
           in case nextSiblings previousState None m of
                Inl e \<Rightarrow> Inl e
              | Inr sibs \<Rightarrow> Inr (addRecords (updatedRecord # sibs) previousState now))
      | OneRec d \<Rightarrow>
          (let updatedRecord = spread (previous previousState (payload_id p)) d
           in case nextSiblings previousState (Some d) m of
                Inl e \<Rightarrow> Inl e
              | Inr sibs \<Rightarrow> Inr (addRecords (updatedRecord # sibs) previousState now)))"

text \<open>The branch \<open>meta.fetch === UPDATE_MANY\<close>; \<open>payload.ids.map\<close> raises without ids.\<close>

definition update_many_branch ::
  "RecordSetWithDate \<Rightarrow> payload \<Rightarrow> int \<Rightarrow> error + RecordSetWithDate"
where
  "update_many_branch previousState p now =
     (case payload_ids p of
        None \<Rightarrow> Inl TypeError
      | Some ids \<Rightarrow>
          (case payload_data p of
             ManyRecs rs \<Rightarrow> Inl OutsideModel
           | NoData \<Rightarrow>
               Inr (addRecords (map (\<lambda>i. spread (previous previousState i) []) ids)
                      previousState now)
           | OneRec d \<Rightarrow>
               Inr (addRecords (map (\<lambda>i. spread (previous previousState i) d) ids)
                      previousState now)))"

text \<open>
  The \<open>switch\<close> on \<open>meta.fetchResponse\<close>. \<open>addRecords(payload.data, ...)\<close> takes the
  default \<open>[]\<close> for absent data and raises on \<open>forEach\<close> when the data is one
  object; \<open>addRecords([payload.data], ...)\<close> raises on \<open>record.id\<close> when the data is
  absent.
\<close>

definition response_branch ::
  "RecordSetWithDate \<Rightarrow> payload \<Rightarrow> fetch_type \<Rightarrow> int \<Rightarrow> error + RecordSetWithDate"
where
  "response_branch previousState p response now =
     (if response \<in> {GET_TREE_ROOT_NODES, GET_TREE_CHILDREN_NODES, GET_LIST, GET_MANY,
                      GET_MANY_REFERENCE}
      then (case payload_data p of
              NoData \<Rightarrow> Inr (addRecords [] previousState now)
            | OneRec d \<Rightarrow> Inl TypeError
            | ManyRecs rs \<Rightarrow> Inr (addRecords rs previousState now))
      else if response \<in> {GET_ONE, UPDATE, CREATE}
      then (case payload_data p of
              NoData \<Rightarrow> Inl TypeError
            | OneRec d \<Rightarrow> Inr (addRecords [d] previousState now)
            | ManyRecs rs \<Rightarrow> Inl OutsideModel)
      else Inr previousState)"

text \<open>
  \<open>dataReducer\<close>. The state is absent on the first call and defaults to
  \<open>initialState\<close>. An optimistic action whose fetch type is none of the five handled
  ones leaves the first \<open>if\<close> block without returning and goes on to the test of the
  fetch response, as any other action does.
\<close>

definition dataReducer ::
  "RecordSetWithDate option \<Rightarrow> action \<Rightarrow> int \<Rightarrow> error + RecordSetWithDate"
where
  "dataReducer state a now =
     (let previousState = (case state of None \<Rightarrow> initialState | Some s \<Rightarrow> s);
          p = action_payload a
      in case action_meta a of
           None \<Rightarrow> Inr previousState
         | Some m \<Rightarrow>
             if optimistic m \<and> (fetch m = Some UPDATE \<or> fetch m = Some MOVE_NODE)
             then update_branch previousState p m now
             else if optimistic m \<and> fetch m = Some UPDATE_MANY
             then update_many_branch previousState p now
             else if optimistic m \<and> fetch m = Some DELETE
             then Inr (removeRecords [payload_id p] previousState)
             else if optimistic m \<and> fetch m = Some DELETE_MANY
             then Inr (removeRecords (case payload_ids p of None \<Rightarrow> [] | Some ids \<Rightarrow> ids)
                         previousState)
             else
               (case fetchResponse m of
                  None \<Rightarrow> Inr previousState
                | Some response \<Rightarrow>
                    if fetchStatus m \<noteq> Some FETCH_END then Inr previousState
                    else response_branch previousState p response now))"

definition getRecord :: "RecordSetWithDate \<Rightarrow> jsval \<Rightarrow> obj option" where
  "getRecord state i = lookup state (key_of i)"

text \<open>A run of the reducer over a list of actions, each with the instant it is handled at.\<close>

fun run :: "RecordSetWithDate \<Rightarrow> (action \<times> int) list \<Rightarrow> error + RecordSetWithDate" where
  "run st [] = Inr st"
| "run st ((a, now) # rest) =
     (case dataReducer (Some st) a now of
        Inl e \<Rightarrow> Inl e
      | Inr st' \<Rightarrow> run st' rest)"

section \<open>Invariants of the pool and classes of actions\<close>

text \<open>
  The invariant of the data model: the identifiers of the records are the identifiers of
  the dates.
\<close>

definition consistent :: "RecordSetWithDate \<Rightarrow> bool" where
  "consistent st = (set (pool_keys st) = set (Object_keys (fetchedAt st)))"

text \<open>
  A well formed pool is consistent, and every enumerable property holds a record whose
  \<open>id\<close> names that property.
\<close>

definition well_formed :: "RecordSetWithDate \<Rightarrow> bool" where
  "well_formed st =
     (consistent st \<and>
      (\<forall>k \<in> set (pool_keys st).
         case lookup st k of None \<Rightarrow> False | Some r \<Rightarrow> key_of (get r ''id'') = k))"

text \<open>The mutations the optimistic block handles, and the responses the switch handles.\<close>

definition handled_mutation :: "meta \<Rightarrow> bool" where
  "handled_mutation m =
     (optimistic m \<and>
      fetch m \<in> {Some UPDATE, Some MOVE_NODE, Some UPDATE_MANY, Some DELETE, Some DELETE_MANY})"

definition handled_response :: "meta \<Rightarrow> bool" where
  "handled_response m =
     (fetchStatus m = Some FETCH_END \<and>
      fetchResponse m \<in>
        {Some GET_TREE_ROOT_NODES, Some GET_TREE_CHILDREN_NODES, Some GET_LIST, Some GET_MANY,
         Some GET_MANY_REFERENCE, Some GET_ONE, Some UPDATE, Some CREATE})"


text \<open>An action that uses the name of the hidden property as an identifier.\<close>

definition uses_reserved_name :: "action \<Rightarrow> bool" where
  "uses_reserved_name a =
     (let p = action_payload a
      in key_of (payload_id p) = ''fetchedAt''
         \<or> (case payload_ids p of
               None \<Rightarrow> False
             | Some ids \<Rightarrow> (\<exists>i \<in> set ids. key_of i = ''fetchedAt''))
         \<or> (case payload_data p of
               NoData \<Rightarrow> False
             | OneRec d \<Rightarrow> key_of (get d ''id'') = ''fetchedAt''
             | ManyRecs rs \<Rightarrow> (\<exists>r \<in> set rs. key_of (get r ''id'') = ''fetchedAt'')))"

section \<open>Sample pools and actions\<close>

text \<open>The meta of an optimistic mutation, and of the response of a fetch that ended.\<close>

definition mutation :: "fetch_type \<Rightarrow> meta" where
  "mutation f =
     \<lparr>optimistic = True, fetch = Some f, parentSource = None, positionSource = None,
      fetchResponse = None, fetchStatus = None\<rparr>"

definition response :: "fetch_type \<Rightarrow> meta" where
  "response f =
     \<lparr>optimistic = False, fetch = None, parentSource = None, positionSource = None,
      fetchResponse = Some f, fetchStatus = Some FETCH_END\<rparr>"

text \<open>
  The pool of the comment on \<open>RecordSetWithDate\<close> with the record 12 only, another
  version of that record, and the pool after the title of the record was updated.
\<close>

definition rec12 :: obj where
  "rec12 = [(''id'', JNum 12), (''title'', JStr ''hello'')]"


definition pool12 :: RecordSetWithDate where
  "pool12 = \<lparr>props = [(''12'', Some rec12)], fetchedAt = [(''12'', JNum 1000)]\<rparr>"

definition pool12_updated :: RecordSetWithDate where
  "pool12_updated =
     \<lparr>props = [(''12'', Some [(''id'', JNum 12), (''title'', JStr ''b'')])],
      fetchedAt = [(''12'', JNum 2000)]\<rparr>"

text \<open>The record 12 is fetched, updated, deleted.\<close>

definition fetched12 :: action where
  "fetched12 =
     \<lparr>action_payload =
        \<lparr>payload_id = JUndefined, payload_ids = None, payload_data = OneRec rec12\<rparr>,
      action_meta = Some (response GET_ONE)\<rparr>"

definition update12 :: action where
  "update12 =
     \<lparr>action_payload =
        \<lparr>payload_id = JNum 12, payload_ids = None,
         payload_data = OneRec [(''title'', JStr ''b'')]\<rparr>,
      action_meta = Some (mutation UPDATE)\<rparr>"

definition delete12 :: action where
  "delete12 =
     \<lparr>action_payload = \<lparr>payload_id = JNum 12, payload_ids = None, payload_data = NoData\<rparr>,
      action_meta = Some (mutation DELETE)\<rparr>"

definition delete_many12 :: action where
  "delete_many12 =
     \<lparr>action_payload =
        \<lparr>payload_id = JUndefined, payload_ids = Some [JNum 12], payload_data = NoData\<rparr>,
      action_meta = Some (mutation DELETE_MANY)\<rparr>"




text \<open>
  An optimistic action of an unknown kind that also carries the marks of a fetch that
  ended, and an optimistic action of an unknown kind that carries nothing else.
\<close>

definition stray_action :: action where
  "stray_action =
     \<lparr>action_payload =
        \<lparr>payload_id = JUndefined, payload_ids = None, payload_data = OneRec rec12\<rparr>,
      action_meta =
        Some ((mutation (OTHER ''REORDER''))
                \<lparr>fetchResponse := Some GET_ONE, fetchStatus := Some FETCH_END\<rparr>)\<rparr>"

definition unknown_action :: action where
  "unknown_action =
     \<lparr>action_payload =
        \<lparr>payload_id = JUndefined, payload_ids = None, payload_data = OneRec rec12\<rparr>,
      action_meta = Some (mutation (OTHER ''REORDER''))\<rparr>"

text \<open>
  A fetched record whose identifier is the name of the hidden property, and the pool that
  results from the initial one.
\<close>

definition fetched_reserved :: action where
  "fetched_reserved =
     \<lparr>action_payload =
        \<lparr>payload_id = JUndefined, payload_ids = None,
         payload_data = OneRec [(''id'', JStr ''fetchedAt'')]\<rparr>,
      action_meta = Some (response GET_ONE)\<rparr>"

definition overwritten_pool :: RecordSetWithDate where
  "overwritten_pool = \<lparr>props = [], fetchedAt = [(''id'', JStr ''fetchedAt'')]\<rparr>"






section \<open>Facts about objects and pools\<close>

lemma set_Object_keys: "set (Object_keys ob) = fst ` set ob"
  by (simp add: Object_keys_def Object_entries_def AList.dom_clearjunk)

lemma distinct_Object_keys: "distinct (Object_keys ob)"
  by (simp add: Object_keys_def Object_entries_def)

lemma map_of_Object_entries: "map_of (Object_entries ob) = map_of ob"
  by (simp add: Object_entries_def AList.map_of_clearjunk)

lemma keys_rebuild_aux:
  "fst ` set (fold (\<lambda>(key, val) ob. AList.update key val ob) es acc) =
     fst ` set acc \<union> fst ` set es"
proof (induction es arbitrary: acc)
  case Nil
  then show ?case by simp
next
  case (Cons e es)
  obtain k v where e: "e = (k, v)" by (cases e)
  show ?case
    by (simp add: e Cons.IH AList.dom_update)
qed

lemma map_of_rebuild_aux:
  "distinct (map fst es) \<Longrightarrow>
   map_of (fold (\<lambda>(key, val) ob. AList.update key val ob) es acc) = map_of acc ++ map_of es"
proof (induction es arbitrary: acc)
  case Nil
  then show ?case by simp
next
  case (Cons e es)
  obtain k v where e: "e = (k, v)" by (cases e)
  from Cons.prems have "map_of es k = None"
    by (simp add: e map_of_eq_None_iff)
  then show ?case using Cons
    by (auto simp: e AList.update_conv' fun_eq_iff map_add_def split: option.splits)
qed

lemma map_of_spread: "map_of (spread a b) = map_of a ++ map_of b"
  by (simp add: spread_def map_of_rebuild_aux Object_entries_def AList.map_of_clearjunk)

lemma keys_spread: "fst ` set (spread a b) = fst ` set a \<union> fst ` set b"
  by (simp add: spread_def keys_rebuild_aux Object_entries_def AList.dom_clearjunk)

lemma spread_nothing: "spread a [] = a"
  by (simp add: spread_def Object_entries_def)

lemma get_spread: "get (spread a b) k = (case map_of b k of None \<Rightarrow> get a k | Some v \<Rightarrow> v)"
  by (simp add: get_def map_of_spread map_add_def split: option.splits)

lemma keys_filter_key:
  "fst ` set (filter (\<lambda>(k, v). P k) es) = {k \<in> fst ` set es. P k}"
  by (induction es) auto

lemma map_of_filter_key:
  "map_of (filter (\<lambda>(k, v). P k) es) k = (if P k then map_of es k else None)"
  by (induction es) auto

lemma set_pool_keys: "set (pool_keys st) = fst ` set (props st) - {''fetchedAt''}"
proof -
  have "fst ` set (pool_entries st) =
      {k \<in> fst ` set (Object_entries (props st)). k \<noteq> ''fetchedAt''}"
    unfolding pool_entries_def by (rule keys_filter_key)
  then show ?thesis
    by (auto simp: pool_keys_def Object_entries_def AList.dom_clearjunk)
qed

lemma distinct_pool_keys: "distinct (pool_keys st)"
  by (simp add: pool_keys_def pool_entries_def Object_entries_def distinct_map_filter)

lemma distinct_pool_entries: "distinct (map fst (pool_entries st))"
  using distinct_pool_keys by (simp add: pool_keys_def)

lemma map_of_pool_entries:
  "map_of (pool_entries st) k = (if k = ''fetchedAt'' then None else map_of (props st) k)"
  by (simp add: pool_entries_def map_of_filter_key map_of_Object_entries)

subsection \<open>What addRecords builds\<close>

lemma map_of_index_fold:
  "map_of (fold (\<lambda>r acc. AList.update (f r) r acc) rs acc) =
   map_of acc ++ map_of (rev (map (\<lambda>r. (f r, r)) rs))"
proof (induction rs arbitrary: acc)
  case Nil
  then show ?case by simp
next
  case (Cons r rs)
  show ?case
    by (simp add: Cons.IH AList.update_conv' fun_eq_iff map_add_def split: option.splits)
qed

lemma map_of_index_by_id:
  "map_of (index_by_id rs) = map_of (rev (map (\<lambda>r. (key_of (get r ''id''), r)) rs))"
  by (simp add: index_by_id_def map_of_index_fold)

lemma keys_fold_update:
  "fst ` set (fold (\<lambda>i acc. AList.update (f i) (g i) acc) is acc) = fst ` set acc \<union> f ` set is"
  by (induction "is" arbitrary: acc) (auto simp: AList.dom_update)

lemma keys_getFetchedAt:
  "set (Object_keys (getFetchedAt ids old now)) = fst ` set old \<union> key_of ` set ids"
  by (simp add: set_Object_keys getFetchedAt_def keys_spread keys_fold_update)

lemma props_fold_assign:
  "map_of (props (fold (assign byId old) ks recs)) k =
     (if k \<in> set ks \<and> k \<noteq> ''fetchedAt''
      then Some (case map_of byId k of Some r \<Rightarrow> Some r | None \<Rightarrow> lookup old k)
      else map_of (props recs) k)"
  by (induction ks arbitrary: recs) (auto simp: assign_def AList.update_conv')

lemma keys_fold_assign:
  "fst ` set (props (fold (assign byId old) ks recs)) =
     fst ` set (props recs) \<union> (set ks - {''fetchedAt''})"
  by (induction ks arbitrary: recs) (auto simp: assign_def AList.dom_update)

lemma fetchedAt_fold_assign:
  "fetchedAt (fold (assign byId old) ks recs) =
     (if ''fetchedAt'' \<in> set ks
      then (case map_of byId ''fetchedAt'' of Some r \<Rightarrow> r | None \<Rightarrow> fetchedAt old)
      else fetchedAt recs)"
  by (induction ks arbitrary: recs) (auto simp: assign_def)

lemma lookup_addRecords:
  assumes "k \<noteq> ''fetchedAt''"
  shows "lookup (addRecords news old now) k =
     (if k \<in> fst ` set (fetchedAt old) \<union> (\<lambda>r. key_of (get r ''id'')) ` set news
      then (case map_of (index_by_id news) k of Some r \<Rightarrow> Some r | None \<Rightarrow> lookup old k)
      else None)"
  using assms
  by (simp add: lookup_def addRecords_def hideFetchedAt_def Let_def props_fold_assign
      keys_getFetchedAt image_image)

lemma fetchedAt_addRecords:
  "fetchedAt (addRecords news old now) =
     (if ''fetchedAt'' \<in> fst ` set (fetchedAt old) \<union> (\<lambda>r. key_of (get r ''id'')) ` set news
      then (case map_of (index_by_id news) ''fetchedAt'' of
              Some r \<Rightarrow> r | None \<Rightarrow> fetchedAt old)
      else getFetchedAt (map (\<lambda>r. get r ''id'') news) (fetchedAt old) now)"
  by (simp add: addRecords_def hideFetchedAt_def Let_def fetchedAt_fold_assign
      keys_getFetchedAt image_image)

lemma pool_keys_addRecords:
  "set (pool_keys (addRecords news old now)) =
     (fst ` set (fetchedAt old) \<union> (\<lambda>r. key_of (get r ''id'')) ` set news) - {''fetchedAt''}"
  by (auto simp: set_pool_keys addRecords_def hideFetchedAt_def Let_def keys_fold_assign
      keys_getFetchedAt image_image)

subsection \<open>What removeRecords builds\<close>

lemma keys_rebuild: "fst ` set (rebuild es) = fst ` set es"
  by (simp add: rebuild_def keys_rebuild_aux)

lemma map_of_rebuild: "distinct (map fst es) \<Longrightarrow> map_of (rebuild es) = map_of es"
  by (simp add: rebuild_def map_of_rebuild_aux)

lemma lookup_removeRecords:
  assumes "k \<noteq> ''fetchedAt''"
  shows "lookup (removeRecords ids old) k = (if array_includes ids k then None else lookup old k)"
  using assms
  by (simp add: lookup_def removeRecords_def hideFetchedAt_def map_of_rebuild
      distinct_map_filter distinct_pool_entries map_of_filter_key map_of_pool_entries)

lemma pool_keys_removeRecords:
  "set (pool_keys (removeRecords ids old)) = set (pool_keys old) - {k. array_includes ids k}"
proof -
  have "fst ` set (props (removeRecords ids old)) =
      {k \<in> fst ` set (pool_entries old). \<not> array_includes ids k}"
    by (simp add: removeRecords_def hideFetchedAt_def keys_rebuild keys_filter_key
        del: set_filter)
  moreover have "fst ` set (pool_entries old) = set (pool_keys old)"
    by (simp add: pool_keys_def)
  ultimately show ?thesis
    by (auto simp: set_pool_keys)
qed

lemma fetchedAt_keys_removeRecords:
  "fst ` set (fetchedAt (removeRecords ids old)) =
     fst ` set (fetchedAt old) - {k. array_includes ids k}"
proof -
  have "fst ` set (fetchedAt (removeRecords ids old)) =
      {k \<in> fst ` set (Object_entries (fetchedAt old)). \<not> array_includes ids k}"
    by (simp add: removeRecords_def hideFetchedAt_def keys_rebuild keys_filter_key
        del: set_filter)
  then show ?thesis
    by (auto simp: Object_entries_def AList.dom_clearjunk)
qed

section \<open>The accessor\<close>

text \<open>
  Claim C10. For every pool, reachable or not, \<open>getRecord\<close> at the identifier string
  \<open>fetchedAt\<close> returns the metadata map of the pool and not \<open>undefined\<close>, although
  \<open>fetchedAt\<close> is never among the keys that an enumeration of the pool yields.
\<close>

theorem getRecord_fetchedAt:
  "getRecord st (JStr ''fetchedAt'') = Some (fetchedAt st)
   \<and> getRecord st (JStr ''fetchedAt'') \<noteq> None
   \<and> ''fetchedAt'' \<notin> set (pool_keys st)"
  by (simp add: getRecord_def lookup_def set_pool_keys)

section \<open>Eviction\<close>

text \<open>
  A string identifier is evicted from the records and from the dates: this is what
  \<open>removeRecords\<close> does when the identifier it is given is the property name itself.
\<close>

lemma removeRecords_string_id:
  assumes "JStr x \<in> set ids" and "x \<noteq> ''fetchedAt''"
  shows "getRecord (removeRecords ids st) (JStr x) = None
         \<and> x \<notin> set (pool_keys (removeRecords ids st))
         \<and> x \<notin> set (Object_keys (fetchedAt (removeRecords ids st)))"
  using assms
  by (simp add: getRecord_def lookup_removeRecords pool_keys_removeRecords set_Object_keys
      fetchedAt_keys_removeRecords array_includes_def)

text \<open>
  Claim C3. After an optimistic delete of the identifier X (or a delete of many whose
  list holds X) the record at X should be gone from the records and from the dates.
  For the numeric identifier 12 of the pool documented in the source, the code leaves
  the pool as it was: the record 12 and its date are still there, both for
  \<open>DELETE\<close> and for \<open>DELETE_MANY\<close>.
\<close>

theorem delete_numeric_id_keeps_record:
  "dataReducer (Some pool12) delete12 2000 = Inr pool12
   \<and> dataReducer (Some pool12) delete_many12 2000 = Inr pool12
   \<and> getRecord pool12 (JNum 12) = Some rec12
   \<and> key_of (JNum 12) \<in> set (pool_keys pool12)
   \<and> key_of (JNum 12) \<in> set (Object_keys (fetchedAt pool12))"
  by (simp add: dataReducer_def delete12_def delete_many12_def mutation_def removeRecords_def
      pool12_def hideFetchedAt_def rebuild_def pool_entries_def pool_keys_def Object_entries_def
      Object_keys_def array_includes_def getRecord_def lookup_def number_to_string_def
      digits.simps digit_char_def)

section \<open>Actions that change nothing\<close>

text \<open>
  Claim C6, as stated, fails: an optimistic action whose mutation kind is unknown is not
  always left alone. The action below is optimistic, its kind is none of the handled ones,
  and the reducer still merges its record, because the action also carries the response
  kind \<open>GET_ONE\<close> of a fetch that ended.
\<close>

theorem unknown_mutation_with_response_counterexample:
  "action_meta stray_action = Some ((mutation (OTHER ''REORDER''))
                \<lparr>fetchResponse := Some GET_ONE, fetchStatus := Some FETCH_END\<rparr>)
   \<and> dataReducer (Some initialState) stray_action 1000 = Inr pool12
   \<and> getRecord initialState (JNum 12) = None
   \<and> getRecord pool12 (JNum 12) = Some rec12"
  by (simp add: dataReducer_def stray_action_def mutation_def response_branch_def
      addRecords_def index_by_id_def getFetchedAt_def spread_def assign_def rec12_def
      pool12_def initialState_def hideFetchedAt_def Object_entries_def
      Object_keys_def getRecord_def lookup_def get_def number_to_string_def
      digits.simps digit_char_def)

text \<open>
  Claim C6, amended. The reducer returns the pool it was given, and raises nothing, for
  every action without meta and for every action that is neither an optimistic mutation
  of a handled kind nor the response of a handled kind of a fetch that ended. So an
  optimistic action of an unknown kind changes nothing unless it is also such a response,
  an action with an unknown response kind changes nothing unless it is also such a
  mutation, and an action that is neither optimistic nor marked as ended changes nothing.
\<close>

theorem unhandled_action_is_noop:
  assumes "case action_meta a of
             None \<Rightarrow> True
           | Some m \<Rightarrow> \<not> handled_mutation m \<and> \<not> handled_response m"
  shows "dataReducer (Some st) a now = Inr st"
proof (cases "action_meta a")
  case None
  then show ?thesis by (simp add: dataReducer_def)
next
  case (Some m)
  with assms have hm: "\<not> handled_mutation m" and hr: "\<not> handled_response m"
    by simp_all
  from hm have m1: "\<not> (optimistic m \<and> (fetch m = Some UPDATE \<or> fetch m = Some MOVE_NODE))"
    and m2: "\<not> (optimistic m \<and> fetch m = Some UPDATE_MANY)"
    and m3: "\<not> (optimistic m \<and> fetch m = Some DELETE)"
    and m4: "\<not> (optimistic m \<and> fetch m = Some DELETE_MANY)"
    by (auto simp: handled_mutation_def)
  have rest: "dataReducer (Some st) a now =
      (case fetchResponse m of
         None \<Rightarrow> Inr st
       | Some f \<Rightarrow>
           if fetchStatus m \<noteq> Some FETCH_END then Inr st
           else response_branch st (action_payload a) f now)"
    by (simp add: dataReducer_def Let_def Some m1 m2 m3 m4)
  show ?thesis
  proof (cases "fetchResponse m")
    case None
    then show ?thesis by (simp add: rest)
  next
    case (Some f)
    show ?thesis
    proof (cases "fetchStatus m = Some FETCH_END")
      case True
      with hr Some have "response_branch st (action_payload a) f now = Inr st"
        by (auto simp: handled_response_def response_branch_def)
      with True Some show ?thesis by (simp add: rest)
    next
      case False
      with Some show ?thesis by (simp add: rest)
    qed
  qed
qed

theorem unhandled_action_is_noop_witness:
  "dataReducer (Some pool12) unknown_action 2000 = Inr pool12"
  using unhandled_action_is_noop [of unknown_action pool12 2000]
  by (simp add: unknown_action_def mutation_def handled_mutation_def handled_response_def)

lemma consistent_no_reserved: "consistent st \<Longrightarrow> ''fetchedAt'' \<notin> fst ` set (fetchedAt st)"
  by (auto simp: consistent_def set_pool_keys set_Object_keys)

lemma lookup_outside:
  "k \<notin> set (pool_keys st) \<Longrightarrow> k \<noteq> ''fetchedAt'' \<Longrightarrow> lookup st k = None"
  by (simp add: lookup_def set_pool_keys map_of_eq_None_iff [symmetric])

lemma consistent_lookup_outside:
  "consistent st \<Longrightarrow> k \<notin> fst ` set (fetchedAt st) \<Longrightarrow> k \<noteq> ''fetchedAt'' \<Longrightarrow> lookup st k = None"
  by (rule lookup_outside) (simp_all add: consistent_def set_Object_keys)

section \<open>Merging\<close>

text \<open>
  Claim C4. Merging the empty list of new records into a pool (empty or not) whose
  records and dates have the same identifiers gives a pool with the same record at every
  identifier, the same dates, and the same identifiers.
\<close>

theorem addRecords_nothing_new:
  assumes "consistent old"
  shows "(\<forall>k. lookup (addRecords [] old now) k = lookup old k)
         \<and> fetchedAt (addRecords [] old now) = fetchedAt old
         \<and> set (pool_keys (addRecords [] old now)) = set (pool_keys old)"
proof -
  from assms have nf: "''fetchedAt'' \<notin> fst ` set (fetchedAt old)"
    by (rule consistent_no_reserved)
  have f: "fetchedAt (addRecords [] old now) = fetchedAt old"
    using nf by (simp add: fetchedAt_addRecords getFetchedAt_def spread_nothing)
  have l: "lookup (addRecords [] old now) k = lookup old k" for k
  proof (cases "k = ''fetchedAt''")
    case True
    then show ?thesis by (simp add: lookup_def f)
  next
    case False
    then show ?thesis
      using consistent_lookup_outside [OF assms, of k]
      by (simp add: lookup_addRecords index_by_id_def)
  qed
  have "set (pool_keys (addRecords [] old now)) = set (pool_keys old)"
    using assms nf by (simp add: pool_keys_addRecords consistent_def set_Object_keys)
  with f l show ?thesis by simp
qed

theorem addRecords_nothing_new_witness:
  "consistent pool12 \<and> pool_keys pool12 \<noteq> []
   \<and> lookup (addRecords [] pool12 2000) ''12'' = Some rec12
   \<and> fetchedAt (addRecords [] pool12 2000) = [(''12'', JNum 1000)]"
proof -
  have c: "consistent pool12"
    by (simp add: consistent_def pool12_def pool_keys_def pool_entries_def Object_keys_def
        Object_entries_def)
  have "lookup pool12 ''12'' = Some rec12" "fetchedAt pool12 = [(''12'', JNum 1000)]"
    "pool_keys pool12 \<noteq> []"
    by (simp_all add: pool12_def lookup_def pool_keys_def pool_entries_def Object_entries_def)
  with c addRecords_nothing_new [OF c, of 2000] show ?thesis by simp
qed








lemma lookup_pool_key:
  "lookup st k = Some r \<Longrightarrow> k \<noteq> ''fetchedAt'' \<Longrightarrow> k \<in> set (pool_keys st)"
  by (auto simp: lookup_def set_pool_keys split: option.splits dest: map_of_SomeD intro: rev_image_eqI)






section \<open>Optimistic updates\<close>






lemma getRecord_None_not_reserved: "getRecord st i = None \<Longrightarrow> key_of i \<noteq> ''fetchedAt''"
  by (auto simp: getRecord_def lookup_def)

lemma well_formed_lookup:
  assumes "well_formed st" and "k \<in> set (pool_keys st)"
  obtains r where "lookup st k = Some r" and "key_of (get r ''id'') = k"
  using assms by (auto simp: well_formed_def split: option.splits)

section \<open>Moves\<close>




lemma get_update_other: "k \<noteq> position \<Longrightarrow> get (AList.update position v r) k = get r k"
  by (simp add: get_def AList.update_conv')

lemma get_update_same: "get (AList.update position v r) position = v"
  by (simp add: get_def AList.update_conv')

lemma shifted_eq:
  "lookup st k = Some r \<Longrightarrow> shifted st position k = AList.update position (plus_one (get r position)) r"
  by (simp add: shifted_def)

lemma shifted_key:
  assumes "well_formed st" and "k \<in> set (pool_keys st)" and "position \<noteq> ''id''"
  shows "key_of (get (shifted st position k) ''id'') = k"
proof -
  from assms(1,2) obtain r where "lookup st k = Some r" "key_of (get r ''id'') = k"
    by (rule well_formed_lookup)
  with assms(3) show ?thesis by (simp add: shifted_eq get_update_other)
qed




lemma well_formed_consistent: "well_formed st \<Longrightarrow> consistent st"
  by (simp add: well_formed_def)


lemma pool_key_not_reserved: "k \<in> set (pool_keys st) \<Longrightarrow> k \<noteq> ''fetchedAt''"
  by (auto simp: set_pool_keys)






section \<open>Updates of records that the pool does not hold\<close>





section \<open>The invariant along a run\<close>

text \<open>No numeral, and no result of \<open>+ 1\<close>, is the name \<open>fetchedAt\<close>.\<close>

lemma digits_last: "digits n \<noteq> [] \<and> last (digits n) = digit_char (n mod 10)"
  by (subst (1 2) digits.simps) simp

lemma digit_char_not_t: "n < 10 \<Longrightarrow> digit_char n \<noteq> CHR ''t''"
proof -
  assume "n < 10"
  then have "n \<in> {0, 1, 2, 3, 4, 5, 6, 7, 8, 9}" by auto
  then show ?thesis by (auto simp: digit_char_def)
qed

lemma number_to_string_last: "last (number_to_string i) \<noteq> CHR ''t''"
  using digits_last [of "nat i"] digits_last [of "nat (- i)"]
  by (simp add: number_to_string_def digit_char_not_t)

lemma number_to_string_not_reserved: "number_to_string i \<noteq> ''fetchedAt''"
proof
  assume "number_to_string i = ''fetchedAt''"
  then have "last (number_to_string i) = CHR ''t''" by simp
  with number_to_string_last show False by blast
qed

lemma plus_one_not_reserved: "key_of (plus_one v) \<noteq> ''fetchedAt''"
  by (cases v) (auto simp: number_to_string_not_reserved split: option.splits)

lemma well_formed_initialState: "well_formed initialState"
  by (simp add: well_formed_def consistent_def initialState_def hideFetchedAt_def pool_keys_def
      pool_entries_def Object_keys_def Object_entries_def)

lemma well_formed_I:
  assumes "set (pool_keys st) = fst ` set (fetchedAt st)"
    and "\<And>k. k \<in> set (pool_keys st) \<Longrightarrow> \<exists>r. lookup st k = Some r \<and> key_of (get r ''id'') = k"
  shows "well_formed st"
proof -
  have "case lookup st k of None \<Rightarrow> False | Some r \<Rightarrow> key_of (get r ''id'') = k"
    if "k \<in> set (pool_keys st)" for k
    using assms(2) [OF that] by auto
  with assms(1) show ?thesis
    by (simp add: well_formed_def consistent_def set_Object_keys)
qed

lemma well_formed_keys: "well_formed st \<Longrightarrow> set (pool_keys st) = fst ` set (fetchedAt st)"
  by (simp add: well_formed_def consistent_def set_Object_keys)

lemma well_formed_addRecords:
  assumes wf: "well_formed old"
    and news: "\<forall>r \<in> set news. key_of (get r ''id'') \<noteq> ''fetchedAt''"
  shows "well_formed (addRecords news old now)"
proof (rule well_formed_I)
  let ?K = "fst ` set (fetchedAt old) \<union> (\<lambda>r. key_of (get r ''id'')) ` set news"
  have nf: "''fetchedAt'' \<notin> ?K"
    using consistent_no_reserved [OF well_formed_consistent [OF wf]] news by auto
  then have f: "fetchedAt (addRecords news old now) =
      getFetchedAt (map (\<lambda>r. get r ''id'') news) (fetchedAt old) now"
    by (simp only: fetchedAt_addRecords if_False)
  have fk: "fst ` set (fetchedAt (addRecords news old now)) = ?K"
    unfolding f using keys_getFetchedAt [of "map (\<lambda>r. get r ''id'') news" "fetchedAt old" now]
    by (simp add: set_Object_keys image_image)
  have pk: "set (pool_keys (addRecords news old now)) = ?K"
    using nf by (simp add: pool_keys_addRecords)
  from pk fk show "set (pool_keys (addRecords news old now)) =
      fst ` set (fetchedAt (addRecords news old now))"
    by simp
  fix k
  assume "k \<in> set (pool_keys (addRecords news old now))"
  with pk nf have k: "k \<in> ?K" "k \<noteq> ''fetchedAt''" by auto
  show "\<exists>r. lookup (addRecords news old now) k = Some r \<and> key_of (get r ''id'') = k"
  proof (cases "map_of (index_by_id news) k")
    case (Some r)
    then have "(k, r) \<in> set (rev (map (\<lambda>r. (key_of (get r ''id''), r)) news))"
      unfolding map_of_index_by_id by (rule map_of_SomeD)
    then have "key_of (get r ''id'') = k" by auto
    with Some k show ?thesis by (simp add: lookup_addRecords)
  next
    case None
    then have "k \<notin> (\<lambda>r. key_of (get r ''id'')) ` set news"
      unfolding map_of_index_by_id map_of_eq_None_iff by (auto simp: image_image)
    with k have "k \<in> set (pool_keys old)"
      by (simp add: well_formed_keys [OF wf])
    with wf obtain r where "lookup old k = Some r" "key_of (get r ''id'') = k"
      by (rule well_formed_lookup)
    with None k show ?thesis by (simp add: lookup_addRecords)
  qed
qed

lemma well_formed_removeRecords:
  assumes wf: "well_formed old"
  shows "well_formed (removeRecords ids old)"
proof (rule well_formed_I)
  show "set (pool_keys (removeRecords ids old)) = fst ` set (fetchedAt (removeRecords ids old))"
    by (simp add: pool_keys_removeRecords fetchedAt_keys_removeRecords well_formed_keys [OF wf])
  fix k
  assume "k \<in> set (pool_keys (removeRecords ids old))"
  then have k: "k \<in> set (pool_keys old)" "\<not> array_includes ids k"
    by (simp_all add: pool_keys_removeRecords)
  from wf k(1) obtain r where "lookup old k = Some r" "key_of (get r ''id'') = k"
    by (rule well_formed_lookup)
  with k pool_key_not_reserved [OF k(1)]
  show "\<exists>r. lookup (removeRecords ids old) k = Some r \<and> key_of (get r ''id'') = k"
    by (simp add: lookup_removeRecords)
qed

lemma filter_keys_subset: "filter_keys f ks = Inr ks' \<Longrightarrow> set ks' \<subseteq> set ks"
  by (induction ks arbitrary: ks') (auto split: sum.splits if_splits)

lemma nextSiblings_elems:
  assumes "nextSiblings st data m = Inr sibs" and "s \<in> set sibs"
  shows "\<exists>k \<in> set (pool_keys st). s = shifted st (field_name (positionSource m)) k"
proof (cases "truthy (positionSource m)")
  case True
  with assms(1) obtain ks where
    ks: "filter_keys (is_next_sibling st data (field_name (parentSource m))
           (field_name (positionSource m))) (pool_keys st) = Inr ks"
    and sibs: "sibs = map (shifted st (field_name (positionSource m))) ks"
    by (auto simp: nextSiblings_def split: sum.splits)
  from filter_keys_subset [OF ks] assms(2) sibs show ?thesis by auto
next
  case False
  with assms show ?thesis by (simp add: nextSiblings_def)
qed

lemma shifted_not_reserved:
  assumes "well_formed st" and "k \<in> set (pool_keys st)"
  shows "key_of (get (shifted st position k) ''id'') \<noteq> ''fetchedAt''"
proof (cases "position = ''id''")
  case True
  from assms obtain r where "lookup st k = Some r" by (auto elim: well_formed_lookup)
  with True show ?thesis
    by (simp add: shifted_eq get_update_same plus_one_not_reserved)
next
  case False
  with assms show ?thesis
    by (simp add: shifted_key pool_key_not_reserved)
qed

lemma updated_not_reserved:
  assumes "well_formed st" and "key_of i \<noteq> ''fetchedAt''"
    and "key_of (get d ''id'') \<noteq> ''fetchedAt''"
  shows "key_of (get (spread (previous st i) d) ''id'') \<noteq> ''fetchedAt''"
proof (cases "map_of d ''id''")
  case (Some v)
  then have "get d ''id'' = v" by (simp add: get_def)
  with assms(3) Some show ?thesis by (simp add: get_spread)
next
  case None
  show ?thesis
  proof (cases "lookup st (key_of i)")
    case None
    have "get [] ''id'' = JUndefined" by (simp add: get_def)
    with None \<open>map_of d ''id'' = None\<close> show ?thesis
      by (simp add: get_spread previous_def)
  next
    case (Some r)
    with assms(2) have "key_of i \<in> set (pool_keys st)" by (intro lookup_pool_key)
    with assms(1) Some have "key_of (get r ''id'') = key_of i"
      by (auto elim: well_formed_lookup)
    with assms(2) Some \<open>map_of d ''id'' = None\<close> show ?thesis
      by (simp add: get_spread previous_def)
  qed
qed

lemma update_branch_well_formed:
  assumes wf: "well_formed st" and "\<not> uses_reserved_name a"
    and "update_branch st (action_payload a) m now = Inr st'"
  shows "well_formed st'"
proof -
  let ?p = "action_payload a"
  have news: "well_formed (addRecords (spread (previous st (payload_id ?p)) d # sibs) st now)"
    if "nextSiblings st data m = Inr sibs" "key_of (get d ''id'') \<noteq> ''fetchedAt''" for d data sibs
  proof (rule well_formed_addRecords [OF wf], rule ballI)
    fix r
    assume "r \<in> set (spread (previous st (payload_id ?p)) d # sibs)"
    then consider "r = spread (previous st (payload_id ?p)) d" | "r \<in> set sibs" by auto
    then show "key_of (get r ''id'') \<noteq> ''fetchedAt''"
    proof cases
      case 1
      with assms(2) that(2) show ?thesis
        by (simp add: updated_not_reserved [OF wf] uses_reserved_name_def Let_def)
    next
      case 2
      with nextSiblings_elems [OF that(1)] shifted_not_reserved [OF wf] show ?thesis by blast
    qed
  qed
  show ?thesis
  proof (cases "payload_data ?p")
    case NoData
    with assms(3) obtain sibs where "nextSiblings st None m = Inr sibs"
      "st' = addRecords (spread (previous st (payload_id ?p)) [] # sibs) st now"
      by (auto simp: update_branch_def Let_def split: sum.splits)
    with news [of None sibs "[]"] show ?thesis by (simp add: get_def)
  next
    case (OneRec d)
    with assms(3) obtain sibs where "nextSiblings st (Some d) m = Inr sibs"
      "st' = addRecords (spread (previous st (payload_id ?p)) d # sibs) st now"
      by (auto simp: update_branch_def Let_def split: sum.splits)
    moreover from OneRec assms(2) have "key_of (get d ''id'') \<noteq> ''fetchedAt''"
      by (simp add: uses_reserved_name_def Let_def)
    ultimately show ?thesis using news [of "Some d" sibs d] by simp
  next
    case (ManyRecs rs)
    with assms(3) show ?thesis by (simp add: update_branch_def)
  qed
qed

lemma update_many_branch_well_formed:
  assumes wf: "well_formed st" and "\<not> uses_reserved_name a"
    and "update_many_branch st (action_payload a) now = Inr st'"
  shows "well_formed st'"
proof -
  let ?p = "action_payload a"
  from assms(3) obtain ids where ids: "payload_ids ?p = Some ids"
    by (auto simp: update_many_branch_def split: option.splits)
  with assms(2) have clean: "\<forall>i \<in> set ids. key_of i \<noteq> ''fetchedAt''"
    by (auto simp: uses_reserved_name_def Let_def)
  have news: "well_formed (addRecords (map (\<lambda>i. spread (previous st i) d) ids) st now)"
    if "key_of (get d ''id'') \<noteq> ''fetchedAt''" for d
  proof (rule well_formed_addRecords [OF wf], rule ballI)
    fix r
    assume "r \<in> set (map (\<lambda>i. spread (previous st i) d) ids)"
    then obtain i where "i \<in> set ids" "r = spread (previous st i) d" by auto
    with clean that show "key_of (get r ''id'') \<noteq> ''fetchedAt''"
      by (simp add: updated_not_reserved [OF wf])
  qed
  show ?thesis
  proof (cases "payload_data ?p")
    case NoData
    with assms(3) ids news [of "[]"] show ?thesis
      by (auto simp: update_many_branch_def get_def)
  next
    case (OneRec d)
    moreover from OneRec assms(2) have "key_of (get d ''id'') \<noteq> ''fetchedAt''"
      by (simp add: uses_reserved_name_def Let_def)
    ultimately show ?thesis using assms(3) ids news [of d]
      by (auto simp: update_many_branch_def)
  next
    case (ManyRecs rs)
    with assms(3) ids show ?thesis by (simp add: update_many_branch_def)
  qed
qed

lemma response_branch_well_formed:
  assumes wf: "well_formed st" and "\<not> uses_reserved_name a"
    and "response_branch st (action_payload a) f now = Inr st'"
  shows "well_formed st'"
proof (cases "payload_data (action_payload a)")
  case NoData
  with assms(3) have "st' = addRecords [] st now \<or> st' = st"
    by (auto simp: response_branch_def split: if_splits)
  with wf well_formed_addRecords [OF wf, of "[]" now] show ?thesis by auto
next
  case (OneRec d)
  with assms(2) have "key_of (get d ''id'') \<noteq> ''fetchedAt''"
    by (simp add: uses_reserved_name_def Let_def)
  then have "well_formed (addRecords [d] st now)"
    by (intro well_formed_addRecords [OF wf]) simp
  moreover from OneRec assms(3) have "st' = addRecords [d] st now \<or> st' = st"
    by (auto simp: response_branch_def split: if_splits)
  ultimately show ?thesis using wf by auto
next
  case (ManyRecs rs)
  with assms(2) have "\<forall>r \<in> set rs. key_of (get r ''id'') \<noteq> ''fetchedAt''"
    by (simp add: uses_reserved_name_def Let_def)
  then have "well_formed (addRecords rs st now)"
    by (rule well_formed_addRecords [OF wf])
  moreover from ManyRecs assms(3) have "st' = addRecords rs st now \<or> st' = st"
    by (auto simp: response_branch_def split: if_splits)
  ultimately show ?thesis using wf by auto
qed

lemma dataReducer_well_formed:
  assumes wf: "well_formed st" and clean: "\<not> uses_reserved_name a"
    and red: "dataReducer (Some st) a now = Inr st'"
  shows "well_formed st'"
proof (cases "action_meta a")
  case None
  with red wf show ?thesis by (simp add: dataReducer_def)
next
  case (Some m)
  let ?p = "action_payload a"
  show ?thesis
  proof (cases "optimistic m \<and> (fetch m = Some UPDATE \<or> fetch m = Some MOVE_NODE)")
    case True
    with red have "update_branch st ?p m now = Inr st'"
      by (simp add: dataReducer_def Let_def Some)
    with wf clean show ?thesis by (rule update_branch_well_formed)
  next
    case c1: False
    show ?thesis
    proof (cases "optimistic m \<and> fetch m = Some UPDATE_MANY")
      case True
      with red c1 have "update_many_branch st ?p now = Inr st'"
        by (simp add: dataReducer_def Let_def Some)
      with wf clean show ?thesis by (rule update_many_branch_well_formed)
    next
      case c2: False
      show ?thesis
      proof (cases "optimistic m \<and> (fetch m = Some DELETE \<or> fetch m = Some DELETE_MANY)")
        case True
        with red c1 c2 have "\<exists>ids. st' = removeRecords ids st"
          by (auto simp: dataReducer_def Let_def Some)
        with wf show ?thesis by (auto intro: well_formed_removeRecords)
      next
        case c3: False
        then have d1: "\<not> (optimistic m \<and> fetch m = Some DELETE)"
          and d2: "\<not> (optimistic m \<and> fetch m = Some DELETE_MANY)"
          by blast+
        from red have rest:
          "(case fetchResponse m of
              None \<Rightarrow> Inr st
            | Some f \<Rightarrow>
                if fetchStatus m \<noteq> Some FETCH_END then Inr st
                else response_branch st ?p f now) = Inr st'"
          by (simp add: dataReducer_def Let_def Some c1 c2 d1 d2)
        show ?thesis
        proof (cases "fetchResponse m")
          case None
          with rest wf show ?thesis by simp
        next
          case f: (Some f)
          show ?thesis
          proof (cases "fetchStatus m = Some FETCH_END")
            case True
            with rest f have "response_branch st ?p f now = Inr st'" by simp
            with wf clean show ?thesis by (rule response_branch_well_formed)
          next
            case False
            with rest f wf show ?thesis by simp
          qed
        qed
      qed
    qed
  qed
qed

lemma run_well_formed:
  assumes "well_formed st" and "\<forall>(a, now) \<in> set acts. \<not> uses_reserved_name a"
    and "run st acts = Inr st'"
  shows "well_formed st'"
  using assms
proof (induction acts arbitrary: st)
  case Nil
  then show ?case by simp
next
  case (Cons x acts)
  obtain a now where x: "x = (a, now)" by (cases x)
  from Cons.prems(2) have ca: "\<not> uses_reserved_name a"
    and cr: "\<forall>(a, now) \<in> set acts. \<not> uses_reserved_name a"
    by (simp_all add: x)
  show ?case
  proof (cases "dataReducer (Some st) a now")
    case (Inl e)
    with Cons.prems(3) show ?thesis by (simp add: x)
  next
    case (Inr st1)
    with Cons.prems(3) have rest: "run st1 acts = Inr st'" by (simp add: x)
    from Cons.prems(1) ca Inr have "well_formed st1" by (rule dataReducer_well_formed)
    from Cons.IH [OF this cr rest] show ?thesis .
  qed
qed

text \<open>
  Claim C1, amended. Every pool reached from the initial pool by a run of the reducer
  over actions that never use the name \<open>fetchedAt\<close> as an identifier (as payload
  id, among the payload ids, or as the \<open>id\<close> of a payload record) has the same
  identifiers for its records and for its dates.
\<close>

theorem reachable_pool_consistent:
  assumes "\<forall>(a, now) \<in> set acts. \<not> uses_reserved_name a"
    and "run initialState acts = Inr st"
  shows "set (pool_keys st) = set (Object_keys (fetchedAt st))"
  using run_well_formed [OF well_formed_initialState assms]
  by (simp add: well_formed_def consistent_def)

theorem reachable_pool_consistent_witness:
  "run initialState [(fetched12, 1000), (update12, 2000)] = Inr pool12_updated
   \<and> set (pool_keys pool12_updated) = set (Object_keys (fetchedAt pool12_updated))"
proof -
  have s1: "dataReducer (Some initialState) fetched12 1000 = Inr pool12"
    by code_simp
  have s2: "dataReducer (Some pool12) update12 2000 = Inr pool12_updated"
    by code_simp
  have r: "run initialState [(fetched12, 1000), (update12, 2000)] = Inr pool12_updated"
    by (simp add: s1 s2)
  have "\<not> uses_reserved_name fetched12" "\<not> uses_reserved_name update12"
    by code_simp+
  then have c: "\<forall>(a, now) \<in> set [(fetched12, 1000), (update12, 2000 :: int)].
      \<not> uses_reserved_name a"
    by simp
  from reachable_pool_consistent [OF c r] r show ?thesis by simp
qed

text \<open>
  Claim C1, as stated, fails: a fetched record whose identifier is the string
  \<open>fetchedAt\<close> is assigned to the property that holds the dates. The pool reached
  has no record, and its \<open>fetchedAt\<close> has the identifier \<open>id\<close>.
\<close>

theorem reserved_identifier_counterexample:
  "run initialState [(fetched_reserved, 1000)] = Inr overwritten_pool
   \<and> pool_keys overwritten_pool = []
   \<and> Object_keys (fetchedAt overwritten_pool) = [''id'']"
proof -
  have "dataReducer (Some initialState) fetched_reserved 1000 = Inr overwritten_pool"
    by code_simp
  moreover have "pool_keys overwritten_pool = []"
    "Object_keys (fetchedAt overwritten_pool) = [''id'']"
    by code_simp+
  ultimately show ?thesis by simp
qed

end
